theory Spec2Isabelle
  imports Complex_Main "HOL-Library.AList"
begin

section \<open>The hyperparameter resolver \<open>RunInfo\<close> of \<open>stune/utils.py\<close>\<close>

text \<open>
  \<open>RunInfo\<close> maps a \<open>/\<close>-delimited path into a nested configuration document, collapses
  a dictionary found at the end of the path to a value (a default, or a value suggested
  by the trial of a search backend) and memoises the outcome in \<open>self.log\<close>.

  The embedding follows the Python text method by method. Mutation of \<open>self\<close> is explicit
  state passing: every method takes the object and returns the outcome together with the
  object afterwards. A raised exception is \<open>Inl\<close>, a returned value is \<open>Inr\<close>.
  A name cannot begin with an underscore here, so
  \<open>__getitem__\<close>, \<open>__setitem__\<close>, \<open>__init__\<close> and \<open>_sample_param\<close> are
  \<open>getitem\<close>, \<open>setitem\<close>, \<open>init\<close> and \<open>sample_param\<close>.
\<close>

subsection \<open>Values\<close>

text \<open>
  The values a configuration document holds: YAML scalars, lists (\<open>ListConfig\<close>) and
  dictionaries with string keys (\<open>DictConfig\<close>), the latter as association lists in
  document order. \<open>VRef name arg\<close> is a node whose whole content is the interpolation
  written \<open>${name:arg}\<close>: reading it calls the resolver registered under \<open>name\<close> with the
  string \<open>arg\<close>. \<open>VStr\<close> is a string that is no interpolation. Interpolations of other
  forms (references to other nodes, interpolations inside a longer string or inside the
  argument of another) and the missing-value marker are not part of the model. A plain
  Python list, tuple or dict and its configuration counterpart are the same value here.
  Floats are opaque to \<open>RunInfo\<close> (it never computes with one), so a real number stands
  for each.
\<close>

datatype val =
    VNone
  | VBool bool
  | VInt int
  | VFloat real
  | VStr string
  | VRef string string
  | VList "val list"
  | VDict "(string \<times> val) list"

text \<open>
  An f-string is kept as its parts, so that the formatted value is the value itself and
  not its rendering.
\<close>

datatype fragment = Text string | Fmt val

text \<open>
  The exceptions that can arise. \<open>KeyError k full\<close> is the library's \<open>ConfigKeyError\<close>,
  a \<open>KeyError\<close> and so a \<open>LookupError\<close>: \<open>k\<close> is the missing key and \<open>full\<close> the keys
  from the root down to and including \<open>k\<close>. \<open>IndexError\<close> is the other \<open>LookupError\<close>.
  \<open>KeyValidationError\<close> is the library's refusal of a string key on a list.
  \<open>TrialError\<close> stands for whatever a trial raises on its own account, \<open>EvalError\<close> for
  whatever evaluating the text of a \<open>py\<close> interpolation raises. \<open>RecursionError\<close> is
  Python's answer to calls nested too deep, \<open>AttributeError\<close> its answer to a method
  looked up on \<open>None\<close>. The others are the library's: an exception that escapes a
  resolver is wrapped into \<open>InterpolationResolutionError\<close>, an interpolation under a name
  that is not registered is of an unsupported type, a resolver's result that no
  configuration node can hold is an unsupported value, and the node that holds a
  resolver's result is read-only.
\<close>

datatype exc =
    KeyError string "string list"
  | IndexError
  | TypeError
  | KeyValidationError
  | NotImplementedError "fragment list"
  | TrialError string
  | EvalError string
  | RecursionError
  | InterpolationResolutionError exc
  | UnsupportedInterpolationType string
  | UnsupportedValueType
  | ReadonlyConfigError
  | AttributeError

text \<open>
  The Python objects that flow out of \<open>RunInfo\<close>: a configuration value, or an exception
  object handled as data (which \<open>_sample_param\<close> can return).
\<close>

datatype pyval = Val val | ExcObj exc

subsection \<open>The trial\<close>

text \<open>
  The trial is an opaque, stateful collaborator with the methods
  \<open>suggest_categorical(name, choices)\<close> and \<open>suggest_float(name, low, high)\<close>. It is
  modelled as the most general deterministic object of that interface: its answer to a
  call may depend on every call it has received before, and each call is recorded in
  its history, whether it returns or raises.
\<close>

datatype call =
    Suggest_categorical string val
  | Suggest_float string val val

record trial =
  number :: int
  respond :: "call list \<Rightarrow> call \<Rightarrow> exc + pyval"
  history :: "call list"

definition consult :: "trial \<Rightarrow> call \<Rightarrow> (exc + pyval) \<times> trial" where
  "consult t c = (respond t (history t) c, t\<lparr>history := history t @ [c]\<rparr>)"

definition suggest_categorical :: "trial \<Rightarrow> string \<Rightarrow> val \<Rightarrow> (exc + pyval) \<times> trial" where
  "suggest_categorical t name choices = consult t (Suggest_categorical name choices)"

text \<open>
  \<open>suggest_float(key, *args)\<close>: the star passes the elements as positional arguments,
  and binding them to \<open>(low, high)\<close> raises \<open>TypeError\<close> before the trial runs unless
  there are exactly two.
\<close>

definition suggest_float :: "trial \<Rightarrow> string \<Rightarrow> val list \<Rightarrow> (exc + pyval) \<times> trial" where
  "suggest_float t name args =
     (case args of
        [low, high] \<Rightarrow> consult t (Suggest_float name low high)
      | _ \<Rightarrow> (Inl TypeError, t))"

subsection \<open>Operations of Python and of the configuration library\<close>

text \<open>\<open>s.split(sep)\<close> for a one-character separator: the result is never empty.\<close>

fun split :: "char \<Rightarrow> string \<Rightarrow> string list" where
  "split sep [] = [[]]"
| "split sep (c # cs) =
     (if c = sep then [] # split sep cs
      else (case split sep cs of
              w # ws \<Rightarrow> (c # w) # ws
            | [] \<Rightarrow> [[c]]))"

text \<open>
  Modelled from the spec: the lookup of \<open>param[key]\<close> with a string key, where \<open>param\<close>
  is a node of the configuration tree (the configuration library is not part of the
  repository). A dictionary node yields the child as it is stored, or fails with the
  lookup error that names the missing key and the path so far; \<open>here\<close> is the path of the
  node itself. A list node refuses a string key. A scalar, which the library hands out as
  the plain Python value, is not subscriptable by a string: Python raises \<open>TypeError\<close>.
  A stored child that is an interpolation is still to be resolved: that is \<open>read\<close>, below.
\<close>

fun item :: "string list \<Rightarrow> val \<Rightarrow> string \<Rightarrow> exc + val" where
  "item here (VDict kvs) key =
     (case map_of kvs key of
        None \<Rightarrow> Inl (KeyError key (here @ [key]))
      | Some v \<Rightarrow> Inr v)"
| "item here (VList xs) key = Inl KeyValidationError"
| "item here v key = Inl TypeError"

text \<open>
  Modelled from the spec: item assignment \<open>param[key] = v\<close> with a string key. A
  dictionary node replaces or appends the entry; every other node fails as \<open>item\<close> does.
\<close>

fun set_item :: "val \<Rightarrow> string \<Rightarrow> val \<Rightarrow> exc + val" where
  "set_item (VDict kvs) key v = Inr (VDict (AList.update key v kvs))"
| "set_item (VList xs) key v = Inl KeyValidationError"
| "set_item node key v = Inl TypeError"

text \<open>
  \<open>param.get(key, None)\<close> on a dictionary node whose entry reads as it is stored; an
  entry that is an interpolation goes through \<open>get\<close>, below.
\<close>

definition get_or_none :: "(string \<times> val) list \<Rightarrow> string \<Rightarrow> val" where
  "get_or_none kvs key = (case map_of kvs key of None \<Rightarrow> VNone | Some v \<Rightarrow> v)"

text \<open>
  The lookup of \<open>x[n]\<close> with a literal index \<open>n\<close> of 0 or 1: an element of a list as
  it is stored, a character of a string, a missing key of a dictionary (whose keys are
  strings), and \<open>TypeError\<close> on any other value.
\<close>

fun index :: "string list \<Rightarrow> val \<Rightarrow> nat \<Rightarrow> exc + val" where
  "index here (VList xs) n = (if n < length xs then Inr (xs ! n) else Inl IndexError)"
| "index here (VStr s) n = (if n < length s then Inr (VStr [s ! n]) else Inl IndexError)"
| "index here (VDict kvs) n =
     Inl (KeyError (if n = 0 then ''0'' else ''1'') (here @ [if n = 0 then ''0'' else ''1'']))"
| "index here v n = Inl TypeError"

text \<open>
  \<open>*x\<close>: the elements of a list as they are stored, the characters of a string, the
  keys of a dictionary.
\<close>

fun unpack :: "val \<Rightarrow> exc + val list" where
  "unpack (VList xs) = Inr xs"
| "unpack (VStr s) = Inr (map (\<lambda>c. VStr [c]) s)"
| "unpack (VDict kvs) = Inr (map (\<lambda>kv. VStr (fst kv)) kvs)"
| "unpack v = Inl TypeError"

text \<open>
  What Python accepts as an integer in \<open>range\<close>: an \<open>int\<close>, or a \<open>bool\<close>, which is one.
\<close>

fun as_int :: "val \<Rightarrow> int option" where
  "as_int (VInt n) = Some n"
| "as_int (VBool b) = Some (if b then 1 else 0)"
| "as_int v = None"

text \<open>\<open>x + 1\<close>: defined on numbers, \<open>TypeError\<close> on every other value.\<close>

fun add_one :: "val \<Rightarrow> exc + val" where
  "add_one (VInt n) = Inr (VInt (n + 1))"
| "add_one (VBool b) = Inr (VInt ((if b then 1 else 0) + 1))"
| "add_one (VFloat x) = Inr (VFloat (x + 1))"
| "add_one v = Inl TypeError"

text \<open>\<open>tuple(range(start, stop))\<close>: the integers from \<open>start\<close> up to \<open>stop - 1\<close>.\<close>

definition range_tuple :: "val \<Rightarrow> val \<Rightarrow> exc + val" where
  "range_tuple start stop =
     (case as_int start of
        None \<Rightarrow> Inl TypeError
      | Some a \<Rightarrow>
          (case as_int stop of
             None \<Rightarrow> Inl TypeError
           | Some b \<Rightarrow> Inr (VList (map VInt [a..b - 1]))))"

subsection \<open>The resolver\<close>

record RunInfo =
  study_name :: string
  config :: val
  log :: "string \<rightharpoonup> pyval"
  trial :: "trial option"

text \<open>
  \<open>__init__\<close>: \<open>log or {}\<close> turns an absent log into the empty dictionary. Its last two
  statements register the resolvers \<open>py\<close> and \<open>hp\<close> with the library, replacing any
  of these names: that is \<open>registry\<close>, below, which the reads of every later call
  consult.
\<close>

definition init :: "string \<Rightarrow> val \<Rightarrow> (string \<rightharpoonup> pyval) option \<Rightarrow> trial option \<Rightarrow> RunInfo" where
  "init name cfg lg tr =
     \<lparr>study_name = name, config = cfg,
      log = (case lg of None \<Rightarrow> Map.empty | Some m \<Rightarrow> m), trial = tr\<rparr>"

subsection \<open>The methods where nodes read as they are stored\<close>

text \<open>
  The methods first on their own: every node read is taken as it is stored, so that a
  read has no effect on the object. This is what the methods do on a document without
  interpolations (\<open>getitem_r_plain\<close> and \<open>setitem_r_plain\<close>, below); the methods with the
  resolvers at work follow.

  The loop \<open>for key in path: param = param[key]\<close>, started at the node with path
  \<open>here\<close>.
\<close>

fun descend :: "string list \<Rightarrow> val \<Rightarrow> string list \<Rightarrow> exc + val" where
  "descend here param [] = Inr param"
| "descend here param (key # keys) =
     (case item here param key of
        Inl e \<Rightarrow> Inl e
      | Inr child \<Rightarrow> descend (here @ [key]) child keys)"

text \<open>
  \<open>_sample_param(key, param, trial)\<close>, where \<open>param\<close> is a dictionary node, given by its
  entries. The result pairs the outcome with the trial afterwards.
\<close>

definition sample_param ::
  "string \<Rightarrow> (string \<times> val) list \<Rightarrow> trial option \<Rightarrow> (exc + pyval) \<times> trial option" where
  "sample_param key param tr =
     (case tr of
        None \<Rightarrow> (Inr (Val (get_or_none param ''default'')), None)
      | Some t \<Rightarrow>
          (let sample_type = get_or_none param ''sample_type'';
               here = split CHR ''/'' key in
           if sample_type \<noteq> VNone then
             if sample_type = VStr ''single_value'' then
               (case item here (VDict param) ''sample_space'' of
                  Inl e \<Rightarrow> (Inl e, Some t)
                | Inr space \<Rightarrow> (Inr (Val space), Some t))
             else if sample_type = VStr ''categorical'' then
               (case item here (VDict param) ''sample_space'' of
                  Inl e \<Rightarrow> (Inl e, Some t)
                | Inr space \<Rightarrow>
                    (case suggest_categorical t key space of (r, t') \<Rightarrow> (r, Some t')))
             else if sample_type = VStr ''float'' then
               (case item here (VDict param) ''sample_space'' of
                  Inl e \<Rightarrow> (Inl e, Some t)
                | Inr space \<Rightarrow>
                    (case unpack space of
                       Inl e \<Rightarrow> (Inl e, Some t)
                     | Inr args \<Rightarrow>
                         (case suggest_float t key args of (r, t') \<Rightarrow> (r, Some t'))))
             else if sample_type = VStr ''range'' then
               (case item here (VDict param) ''sample_space'' of
                  Inl e \<Rightarrow> (Inl e, Some t)
                | Inr space \<Rightarrow>
                    (case index (here @ [''sample_space'']) space 0 of
                       Inl e \<Rightarrow> (Inl e, Some t)
                     | Inr low \<Rightarrow>
                         (case index (here @ [''sample_space'']) space 1 of
                            Inl e \<Rightarrow> (Inl e, Some t)
                          | Inr high \<Rightarrow>
                              (case add_one high of
                                 Inl e \<Rightarrow> (Inl e, Some t)
                               | Inr stop \<Rightarrow>
                                   (case range_tuple low stop of
                                      Inl e \<Rightarrow> (Inl e, Some t)
                                    | Inr choices \<Rightarrow>
                                        (case suggest_categorical t key choices of
                                           (r, t') \<Rightarrow> (r, Some t')))))))
             else
               (Inl (NotImplementedError
                       [Text ''sample_type '', Fmt sample_type, Text '' is not supported'']),
                Some t)
           else
             (Inr (ExcObj (NotImplementedError
                [Text ''At the moment it is not possible to return dictionaries when querying parameters.''])),
              Some t)))"

text \<open>\<open>__getitem__(i)\<close>, for a string \<open>i\<close>.\<close>

definition getitem :: "RunInfo \<Rightarrow> string \<Rightarrow> (exc + pyval) \<times> RunInfo" where
  "getitem self i =
     (case log self i of
        Some v \<Rightarrow> (Inr v, self)
      | None \<Rightarrow>
          (case descend [] (config self) (split CHR ''/'' i) of
             Inl e \<Rightarrow> (Inl e, self)
           | Inr param \<Rightarrow>
               (case param of
                  VDict entries \<Rightarrow>
                    (case sample_param i entries (trial self) of
                       (Inl e, tr) \<Rightarrow> (Inl e, self\<lparr>trial := tr\<rparr>)
                     | (Inr v, tr) \<Rightarrow> (Inr v, self\<lparr>log := (log self)(i \<mapsto> v), trial := tr\<rparr>))
                | _ \<Rightarrow> (Inr (Val param), self\<lparr>log := (log self)(i \<mapsto> Val param)\<rparr>))))"

text \<open>
  The configuration tree is mutated in place through a reference to an inner node;
  seen from the root, the node at \<open>keys\<close> is replaced by its new content.
\<close>

fun write_back :: "val \<Rightarrow> string list \<Rightarrow> val \<Rightarrow> val" where
  "write_back node [] new = new"
| "write_back (VDict kvs) (key # keys) new =
     (case map_of kvs key of
        None \<Rightarrow> VDict kvs
      | Some child \<Rightarrow> VDict (AList.update key (write_back child keys new) kvs))"
| "write_back node (key # keys) new = node"

text \<open>
  \<open>__setitem__(i, v)\<close>, for a string \<open>i\<close> and a value \<open>v\<close> that a configuration can hold.
  The path is never empty, so \<open>path[:-1]\<close> and \<open>path[-1]\<close> are \<open>butlast\<close> and \<open>last\<close>.
\<close>

definition setitem :: "RunInfo \<Rightarrow> string \<Rightarrow> val \<Rightarrow> (exc + unit) \<times> RunInfo" where
  "setitem self i v =
     (let path = split CHR ''/'' i in
      case descend [] (config self) (butlast path) of
        Inl e \<Rightarrow> (Inl e, self)
      | Inr param \<Rightarrow>
          (case set_item param (last path) v of
             Inl e \<Rightarrow> (Inl e, self)
           | Inr param' \<Rightarrow>
               (Inr (),
                self\<lparr>config := write_back (config self) (butlast path) param',
                     log := (log self)(i \<mapsto> Val v)\<rparr>)))"

definition is_log :: "RunInfo \<Rightarrow> bool" where
  "is_log self = True"

definition trial_id :: "RunInfo \<Rightarrow> int option" where
  "trial_id self = (case trial self of None \<Rightarrow> None | Some t \<Rightarrow> Some (number t))"

subsection \<open>Interpolations and the resolvers of \<open>__init__\<close>\<close>

text \<open>
  The two resolvers that \<open>__init__\<close> registers: \<open>py\<close> is
  \<open>lambda code: eval(code.strip())\<close> and \<open>hp\<close> is \<open>lambda param: self[f"hp/{param}"]\<close>,
  which re-enters \<open>__getitem__\<close> on the object. Resolvers that the library or other code
  registers are not part of the model.
\<close>

datatype resolver = Py | Hp

definition registry :: "string \<rightharpoonup> resolver" where
  "registry = [''py'' \<mapsto> Py, ''hp'' \<mapsto> Hp]"

text \<open>\<open>s.strip()\<close>: without the white space at either end.\<close>

definition whitespace :: "char \<Rightarrow> bool" where
  "whitespace c = (c \<in> set [CHR '' '', CHR 0x09, CHR 0x0A, CHR 0x0B, CHR 0x0C, CHR 0x0D])"

definition strip :: "string \<Rightarrow> string" where
  "strip s = rev (dropWhile whitespace (rev (dropWhile whitespace s)))"

text \<open>
  Modelled from the spec: an exception that escapes a resolver reaches the caller as
  the library's \<open>InterpolationResolutionError\<close>; one that is such an error already
  passes as it is.
\<close>

fun wrapped :: "exc \<Rightarrow> exc" where
  "wrapped (InterpolationResolutionError e) = InterpolationResolutionError e"
| "wrapped e = InterpolationResolutionError e"

fun is_ref :: "val \<Rightarrow> bool" where
  "is_ref (VRef name arg) = True"
| "is_ref v = False"

text \<open>
  Modelled from the spec: what the library does with a stored node when it is read
  (the helpers are evaluated lazily, at the point the surrounding node is read). A node
  that is no interpolation is the value read. An interpolation calls its resolver and
  the result is the value read; it is not resolved a second time. \<open>ev\<close> is Python's
  \<open>eval\<close> on the text of a \<open>py\<close> interpolation, taken as a parameter: it cannot reach the
  object, since the lambda closes over nothing. \<open>again\<close> is \<open>self[...]\<close>, the method that
  \<open>hp\<close> re-enters; the state it returns is the object after the nested call. An
  exception object that a nested call returns is no value for a node.
\<close>

definition resolve ::
  "(string \<Rightarrow> exc + val) \<Rightarrow> (RunInfo \<Rightarrow> string \<Rightarrow> (exc + pyval) \<times> RunInfo) \<Rightarrow>
   RunInfo \<Rightarrow> val \<Rightarrow> (exc + val) \<times> RunInfo" where
  "resolve ev again self node =
     (case node of
        VRef name arg \<Rightarrow>
          (case registry name of
             None \<Rightarrow> (Inl (UnsupportedInterpolationType name), self)
           | Some Py \<Rightarrow>
               (case ev (strip arg) of
                  Inl e \<Rightarrow> (Inl (wrapped e), self)
                | Inr v \<Rightarrow> (Inr v, self))
           | Some Hp \<Rightarrow>
               (case again self (''hp/'' @ arg) of
                  (Inl e, self') \<Rightarrow> (Inl (wrapped e), self')
                | (Inr (Val v), self') \<Rightarrow> (Inr v, self')
                | (Inr (ExcObj e), self') \<Rightarrow> (Inl UnsupportedValueType, self')))
      | _ \<Rightarrow> (Inr node, self))"

text \<open>\<open>param[key]\<close> with a string key: the lookup, then the reading of what is stored.\<close>

definition read ::
  "(string \<Rightarrow> exc + val) \<Rightarrow> (RunInfo \<Rightarrow> string \<Rightarrow> (exc + pyval) \<times> RunInfo) \<Rightarrow>
   RunInfo \<Rightarrow> string list \<Rightarrow> val \<Rightarrow> string \<Rightarrow> (exc + val) \<times> RunInfo" where
  "read ev again self here param key =
     (case item here param key of
        Inl e \<Rightarrow> (Inl e, self)
      | Inr child \<Rightarrow> resolve ev again self child)"

text \<open>\<open>param.get(key, None)\<close> on a dictionary node.\<close>

definition get ::
  "(string \<Rightarrow> exc + val) \<Rightarrow> (RunInfo \<Rightarrow> string \<Rightarrow> (exc + pyval) \<times> RunInfo) \<Rightarrow>
   RunInfo \<Rightarrow> (string \<times> val) list \<Rightarrow> string \<Rightarrow> (exc + val) \<times> RunInfo" where
  "get ev again self param key =
     (case map_of param key of
        None \<Rightarrow> (Inr VNone, self)
      | Some child \<Rightarrow> resolve ev again self child)"

text \<open>\<open>x[n]\<close> with a literal index of 0 or 1.\<close>

definition index_r ::
  "(string \<Rightarrow> exc + val) \<Rightarrow> (RunInfo \<Rightarrow> string \<Rightarrow> (exc + pyval) \<times> RunInfo) \<Rightarrow>
   RunInfo \<Rightarrow> string list \<Rightarrow> val \<Rightarrow> nat \<Rightarrow> (exc + val) \<times> RunInfo" where
  "index_r ev again self here x n =
     (case index here x n of
        Inl e \<Rightarrow> (Inl e, self)
      | Inr element \<Rightarrow> resolve ev again self element)"

text \<open>
  Iterating over a list reads its elements in order and stops at the first that
  raises.
\<close>

fun resolve_all ::
  "(string \<Rightarrow> exc + val) \<Rightarrow> (RunInfo \<Rightarrow> string \<Rightarrow> (exc + pyval) \<times> RunInfo) \<Rightarrow>
   RunInfo \<Rightarrow> val list \<Rightarrow> (exc + val list) \<times> RunInfo" where
  "resolve_all ev again self [] = (Inr [], self)"
| "resolve_all ev again self (x # xs) =
     (case resolve ev again self x of
        (Inl e, self') \<Rightarrow> (Inl e, self')
      | (Inr v, self') \<Rightarrow>
          (case resolve_all ev again self' xs of
             (Inl e, self'') \<Rightarrow> (Inl e, self'')
           | (Inr vs, self'') \<Rightarrow> (Inr (v # vs), self'')))"

text \<open>\<open>*x\<close>.\<close>

definition unpack_r ::
  "(string \<Rightarrow> exc + val) \<Rightarrow> (RunInfo \<Rightarrow> string \<Rightarrow> (exc + pyval) \<times> RunInfo) \<Rightarrow>
   RunInfo \<Rightarrow> val \<Rightarrow> (exc + val list) \<times> RunInfo" where
  "unpack_r ev again self x =
     (case x of
        VList xs \<Rightarrow> resolve_all ev again self xs
      | _ \<Rightarrow> (unpack x, self))"

subsection \<open>The methods, with the resolvers at work\<close>

text \<open>
  The loop \<open>for key in path: param = param[key]\<close>, started at the node with path
  \<open>here\<close>; each step may change the object through a nested call.
\<close>

fun descend_r ::
  "(string \<Rightarrow> exc + val) \<Rightarrow> (RunInfo \<Rightarrow> string \<Rightarrow> (exc + pyval) \<times> RunInfo) \<Rightarrow>
   RunInfo \<Rightarrow> string list \<Rightarrow> val \<Rightarrow> string list \<Rightarrow> (exc + val) \<times> RunInfo" where
  "descend_r ev again self here param [] = (Inr param, self)"
| "descend_r ev again self here param (key # keys) =
     (case read ev again self here param key of
        (Inl e, self') \<Rightarrow> (Inl e, self')
      | (Inr child, self') \<Rightarrow> descend_r ev again self' (here @ [key]) child keys)"

text \<open>
  A call of a method of the trial. The trial is an object that the nested calls share,
  so the call goes to the trial as the object holds it by then. \<open>trial\<close> was tested against
  \<open>None\<close> before; on \<open>None\<close> the method lookup would raise \<open>AttributeError\<close>.
\<close>

definition with_trial ::
  "RunInfo \<Rightarrow> (trial \<Rightarrow> (exc + pyval) \<times> trial) \<Rightarrow> (exc + pyval) \<times> RunInfo" where
  "with_trial self method =
     (case trial self of
        None \<Rightarrow> (Inl AttributeError, self)
      | Some t \<Rightarrow> (case method t of (r, t') \<Rightarrow> (r, self\<lparr>trial := Some t'\<rparr>)))"

text \<open>
  \<open>_sample_param(key, param, trial)\<close>, where \<open>param\<close> is a dictionary node, given by its
  entries, and \<open>trial\<close> is \<open>self.trial\<close>. The result pairs the outcome with the object
  afterwards.
\<close>

definition sample_param_r ::
  "(string \<Rightarrow> exc + val) \<Rightarrow> (RunInfo \<Rightarrow> string \<Rightarrow> (exc + pyval) \<times> RunInfo) \<Rightarrow>
   string \<Rightarrow> (string \<times> val) list \<Rightarrow> RunInfo \<Rightarrow> (exc + pyval) \<times> RunInfo" where
  "sample_param_r ev again key param self =
     (let here = split CHR ''/'' key in
      case trial self of
        None \<Rightarrow>
          (case get ev again self param ''default'' of
             (Inl e, s) \<Rightarrow> (Inl e, s)
           | (Inr v, s) \<Rightarrow> (Inr (Val v), s))
      | Some t \<Rightarrow>
          (case get ev again self param ''sample_type'' of
             (Inl e, s) \<Rightarrow> (Inl e, s)
           | (Inr sample_type, s) \<Rightarrow>
               if sample_type \<noteq> VNone then
                 if sample_type = VStr ''single_value'' then
                   (case read ev again s here (VDict param) ''sample_space'' of
                      (Inl e, s') \<Rightarrow> (Inl e, s')
                    | (Inr space, s') \<Rightarrow> (Inr (Val space), s'))
                 else if sample_type = VStr ''categorical'' then
                   (case read ev again s here (VDict param) ''sample_space'' of
                      (Inl e, s') \<Rightarrow> (Inl e, s')
                    | (Inr space, s') \<Rightarrow>
                        with_trial s' (\<lambda>t. suggest_categorical t key space))
                 else if sample_type = VStr ''float'' then
                   (case read ev again s here (VDict param) ''sample_space'' of
                      (Inl e, s') \<Rightarrow> (Inl e, s')
                    | (Inr space, s') \<Rightarrow>
                        (case unpack_r ev again s' space of
                           (Inl e, s'') \<Rightarrow> (Inl e, s'')
                         | (Inr args, s'') \<Rightarrow>
                             with_trial s'' (\<lambda>t. suggest_float t key args)))
                 else if sample_type = VStr ''range'' then
                   (case read ev again s here (VDict param) ''sample_space'' of
                      (Inl e, s1) \<Rightarrow> (Inl e, s1)
                    | (Inr space, s1) \<Rightarrow>
                        (case index_r ev again s1 (here @ [''sample_space'']) space 0 of
                           (Inl e, s2) \<Rightarrow> (Inl e, s2)
                         | (Inr low, s2) \<Rightarrow>
                             (case read ev again s2 here (VDict param) ''sample_space'' of
                                (Inl e, s3) \<Rightarrow> (Inl e, s3)
                              | (Inr space', s3) \<Rightarrow>
                                  (case index_r ev again s3 (here @ [''sample_space'']) space' 1 of
                                     (Inl e, s4) \<Rightarrow> (Inl e, s4)
                                   | (Inr high, s4) \<Rightarrow>
                                       (case add_one high of
                                          Inl e \<Rightarrow> (Inl e, s4)
                                        | Inr stop \<Rightarrow>
                                            (case range_tuple low stop of
                                               Inl e \<Rightarrow> (Inl e, s4)
                                             | Inr choices \<Rightarrow>
                                                 with_trial s4
                                                   (\<lambda>t. suggest_categorical t key choices)))))))
                 else
                   (Inl (NotImplementedError
                           [Text ''sample_type '', Fmt sample_type, Text '' is not supported'']),
                    s)
               else
                 (Inr (ExcObj (NotImplementedError
                    [Text ''At the moment it is not possible to return dictionaries when querying parameters.''])),
                  s)))"

text \<open>
  The body of \<open>__getitem__(i)\<close>, for a string \<open>i\<close>, with the method that a nested call
  through \<open>hp\<close> enters as a parameter.
\<close>

definition getitem_with ::
  "(string \<Rightarrow> exc + val) \<Rightarrow> (RunInfo \<Rightarrow> string \<Rightarrow> (exc + pyval) \<times> RunInfo) \<Rightarrow>
   RunInfo \<Rightarrow> string \<Rightarrow> (exc + pyval) \<times> RunInfo" where
  "getitem_with ev again self i =
     (case log self i of
        Some v \<Rightarrow> (Inr v, self)
      | None \<Rightarrow>
          (case descend_r ev again self [] (config self) (split CHR ''/'' i) of
             (Inl e, s) \<Rightarrow> (Inl e, s)
           | (Inr param, s) \<Rightarrow>
               (case param of
                  VDict entries \<Rightarrow>
                    (case sample_param_r ev again i entries s of
                       (Inl e, s') \<Rightarrow> (Inl e, s')
                     | (Inr v, s') \<Rightarrow> (Inr v, s'\<lparr>log := (log s')(i \<mapsto> v)\<rparr>))
                | _ \<Rightarrow> (Inr (Val param), s\<lparr>log := (log s)(i \<mapsto> Val param)\<rparr>))))"

text \<open>
  \<open>__getitem__(i)\<close> where the interpreter admits \<open>depth\<close> more calls of the method nested
  in one another: the nested call is the method itself with one call less to go, and
  with none to go Python raises \<open>RecursionError\<close>.
\<close>

fun getitem_r ::
  "(string \<Rightarrow> exc + val) \<Rightarrow> nat \<Rightarrow> RunInfo \<Rightarrow> string \<Rightarrow> (exc + pyval) \<times> RunInfo" where
  "getitem_r ev 0 self i = (Inl RecursionError, self)"
| "getitem_r ev (Suc depth) self i = getitem_with ev (getitem_r ev depth) self i"

text \<open>
  The node that a descent ends in is a node of the tree unless an interpolation was
  read on the way, which is the case when the descent of the stored tree arrives and
  does not end at an interpolation. What a resolver returns is held by a fresh node.
\<close>

definition in_tree :: "val \<Rightarrow> string list \<Rightarrow> bool" where
  "in_tree tree keys =
     (case descend [] tree keys of
        Inl e \<Rightarrow> False
      | Inr node \<Rightarrow> \<not> is_ref node)"


text \<open>
  A document is plain when no node of it is an interpolation. On a plain document
  reading a node has no effect.
\<close>

fun plain :: "val \<Rightarrow> bool" where
  "plain (VRef name arg) = False"
| "plain (VList xs) = list_all plain xs"
| "plain (VDict kvs) = list_all plain (map snd kvs)"
| "plain v = True"

subsection \<open>Observing the trial and later use of the object\<close>

text \<open>The name a call to the trial is keyed by, and the calls the trial has received.\<close>

fun call_name :: "call \<Rightarrow> string" where
  "call_name (Suggest_categorical name choices) = name"
| "call_name (Suggest_float name low high) = name"

definition calls :: "RunInfo \<Rightarrow> call list" where
  "calls self = (case trial self of None \<Rightarrow> [] | Some t \<Rightarrow> history t)"

text \<open>
  A caller uses the object through \<open>self[q]\<close> and \<open>self[q] = w\<close>, and carries on whether
  or not a use raises.
\<close>

datatype op = Resolve string | Overwrite string val

fun step :: "RunInfo \<Rightarrow> op \<Rightarrow> RunInfo" where
  "step self (Resolve q) = snd (getitem self q)"
| "step self (Overwrite q w) = snd (setitem self q w)"

definition run :: "RunInfo \<Rightarrow> op list \<Rightarrow> RunInfo" where
  "run self ops = foldl step self ops"

subsection \<open>A configuration document\<close>

text \<open>
  The hyperparameters of a study, one entry for each kind of node, and a trial that
  answers with the last of the choices it is offered, or with the lower bound.
\<close>

definition hp_batch_size :: "(string \<times> val) list" where
  "hp_batch_size =
     [(''sample_type'', VStr ''range''), (''sample_space'', VList [VInt 1, VInt 3]),
      (''default'', VInt 32)]"

definition hp_act_fn :: "(string \<times> val) list" where
  "hp_act_fn =
     [(''sample_type'', VStr ''categorical''),
      (''sample_space'', VList [VStr ''relu'', VStr ''gelu''])]"

definition hp_beta :: "(string \<times> val) list" where
  "hp_beta =
     [(''sample_type'', VStr ''float''), (''sample_space'', VList [VInt 0, VInt 1])]"

definition hp_T :: "(string \<times> val) list" where
  "hp_T = [(''sample_type'', VStr ''single_value''), (''sample_space'', VInt 7)]"

definition hp_kernel :: "(string \<times> val) list" where
  "hp_kernel = [(''sample_type'', VStr ''unknown_tag''), (''sample_space'', VInt 3)]"

definition hp_optim :: "(string \<times> val) list" where
  "hp_optim = [(''lr'', VInt 1), (''momentum'', VInt 0)]"

definition hp :: "(string \<times> val) list" where
  "hp =
     [(''batch_size'', VDict hp_batch_size), (''act_fn'', VDict hp_act_fn), (''beta'', VDict hp_beta),
      (''T'', VDict hp_T), (''kernel'', VDict hp_kernel), (''optim'', VDict hp_optim),
      (''epochs'', VInt 3)]"

definition document :: val where
  "document = VDict [(''hp'', VDict hp)]"

definition stub_trial :: trial where
  "stub_trial =
     \<lparr>number = 0,
      respond = (\<lambda>h c. case c of
                   Suggest_categorical name choices \<Rightarrow>
                     (case choices of
                        VList (x # xs) \<Rightarrow> Inr (Val (last (x # xs)))
                      | _ \<Rightarrow> Inl (TrialError ''no choices''))
                 | Suggest_float name low high \<Rightarrow> Inr (Val low)),
      history = []\<rparr>"

definition fixed :: RunInfo where
  "fixed = init ''study'' document None None"

definition searching :: RunInfo where
  "searching = init ''study'' document None (Some stub_trial)"

subsection \<open>A document with interpolations\<close>

text \<open>
  The same study with hyperparameters that refer to others through \<open>hp\<close>: \<open>a\<close> is the
  number of epochs, \<open>act2\<close> is a single value taken from \<open>act_fn\<close>, and the \<open>sample_type\<close>
  of \<open>k\<close> is taken from \<open>epochs\<close>. \<open>no_eval\<close> is an \<open>eval\<close> that raises on every text.
\<close>

definition hp_act2 :: "(string \<times> val) list" where
  "hp_act2 = [(''sample_type'', VStr ''single_value''), (''sample_space'', VRef ''hp'' ''act_fn'')]"

definition hp_k :: "(string \<times> val) list" where
  "hp_k = [(''sample_type'', VRef ''hp'' ''epochs''), (''sample_space'', VInt 1)]"

definition linked_hp :: "(string \<times> val) list" where
  "linked_hp =
     [(''epochs'', VInt 3), (''act_fn'', VDict hp_act_fn), (''act2'', VDict hp_act2),
      (''k'', VDict hp_k), (''a'', VRef ''hp'' ''epochs'')]"

definition linked :: val where
  "linked = VDict [(''hp'', VDict linked_hp)]"

definition linked_search :: RunInfo where
  "linked_search = init ''study'' linked None (Some stub_trial)"

definition no_eval :: "string \<Rightarrow> exc + val" where
  "no_eval code = Inl (EvalError code)"

subsection \<open>What a call can do to the object\<close>

text \<open>
  \<open>extends s s'\<close>: the configuration tree is the same and every entry of the cache of
  \<open>s\<close> is an entry of the cache of \<open>s'\<close>. \<open>growing again\<close>: the method \<open>again\<close> leaves the
  object so.
\<close>

definition extends :: "RunInfo \<Rightarrow> RunInfo \<Rightarrow> bool" where
  "extends s s' = (config s' = config s \<and> log s \<subseteq>\<^sub>m log s')"

definition growing :: "(RunInfo \<Rightarrow> string \<Rightarrow> (exc + pyval) \<times> RunInfo) \<Rightarrow> bool" where
  "growing again = (\<forall>s i. extends s (snd (again s i)))"

section \<open>Properties\<close>

subsection \<open>Auxiliary facts\<close>

lemma split_not_Nil: "split sep s \<noteq> []"
  by (induction s) (auto split: list.splits)

lemma sample_param_trial:
  assumes "sample_param key kvs tr = (r, tr')"
  shows "(tr = None \<and> tr' = None) \<or>
         (\<exists>t. tr = Some t \<and> (tr' = Some t \<or>
            (\<exists>c. tr' = Some (t\<lparr>history := history t @ [c]\<rparr>) \<and> call_name c = key)))"
  using assms
  unfolding sample_param_def suggest_categorical_def suggest_float_def consult_def Let_def
  by (auto split: option.splits sum.splits if_splits list.splits prod.splits)

lemma getitem_cached: "log self p = Some v \<Longrightarrow> getitem self p = (Inr v, self)"
  by (simp add: getitem_def)



lemma getitem_log_kept:
  assumes "log self q = Some x"
  shows "log (snd (getitem self p)) q = Some x"
  using assms unfolding getitem_def
  by (auto split: option.splits sum.splits val.splits prod.splits)

lemma setitem_log_other:
  assumes "q \<noteq> p"
  shows "log (snd (setitem self p v)) q = log self q"
  using assms unfolding setitem_def Let_def
  by (auto split: sum.splits)



lemma run_keeps:
  assumes "log self p = Some x" and "\<forall>w. Overwrite p w \<notin> set ops"
  shows "log (run self ops) p = Some x"
  using assms unfolding run_def
proof (induction ops arbitrary: self)
  case Nil
  then show ?case by simp
next
  case (Cons a ops)
  have "log (step self a) p = Some x"
  proof (cases a)
    case (Resolve q)
    with Cons.prems(1) show ?thesis by (simp add: getitem_log_kept)
  next
    case (Overwrite q w)
    with Cons.prems(2) have "p \<noteq> q" by auto
    with Overwrite Cons.prems(1) show ?thesis by (simp add: setitem_log_other)
  qed
  with Cons show ?case by simp
qed

lemma descend_append:
  "descend here node (pre @ key # rest) =
     (case descend here node pre of
        Inl e \<Rightarrow> Inl e
      | Inr n \<Rightarrow>
          (case item (here @ pre) n key of
             Inl e \<Rightarrow> Inl e
           | Inr child \<Rightarrow> descend (here @ pre @ [key]) child rest))"
  by (induction pre arbitrary: here node) (auto split: sum.splits)

lemma getitem_frame:
  "snd (getitem self p) =
     self\<lparr>log := log (snd (getitem self p)), trial := trial (snd (getitem self p))\<rparr>"
  unfolding getitem_def
  by (auto split: option.splits sum.splits val.splits prod.splits)

lemma sample_param_history:
  "\<exists>h. snd (sample_param key kvs tr) = map_option (\<lambda>t. t\<lparr>history := h\<rparr>) tr"
proof -
  obtain r tr' where sp: "sample_param key kvs tr = (r, tr')"
    by (cases "sample_param key kvs tr")
  from sample_param_trial [OF sp] show ?thesis
  proof (elim disjE conjE exE)
    assume "tr = None" "tr' = None"
    with sp show ?thesis by simp
  next
    fix t assume "tr = Some t" "tr' = Some t"
    with sp have "snd (sample_param key kvs tr) = map_option (\<lambda>u. u\<lparr>history := history t\<rparr>) tr"
      by simp
    then show ?thesis by blast
  next
    fix t c assume "tr = Some t" "tr' = Some (t\<lparr>history := history t @ [c]\<rparr>)"
    with sp have "snd (sample_param key kvs tr) =
        map_option (\<lambda>u. u\<lparr>history := history t @ [c]\<rparr>) tr"
      by simp
    then show ?thesis by blast
  qed
qed

lemma getitem_trial:
  "\<exists>h. trial (snd (getitem self p)) = map_option (\<lambda>t. t\<lparr>history := h\<rparr>) (trial self)"
proof -
  have same: "\<exists>h. trial self = map_option (\<lambda>t. t\<lparr>history := h\<rparr>) (trial self)"
  proof (cases "trial self")
    case None
    then show ?thesis by simp
  next
    case (Some t)
    then have "trial self = map_option (\<lambda>u. u\<lparr>history := history t\<rparr>) (trial self)" by simp
    then show ?thesis by blast
  qed
  show ?thesis
  proof (cases "log self p")
    case (Some v)
    with same show ?thesis by (simp add: getitem_def)
  next
    case None
    show ?thesis
    proof (cases "descend [] (config self) (split CHR ''/'' p)")
      case (Inl e)
      with None same show ?thesis by (simp add: getitem_def)
    next
      case (Inr param)
      show ?thesis
      proof (cases "\<exists>kvs. param = VDict kvs")
        case False
        with None Inr same show ?thesis
          by (cases param) (simp_all add: getitem_def)
      next
        case True
        then obtain kvs where kvs: "param = VDict kvs" by blast
        have "trial (snd (getitem self p)) = snd (sample_param p kvs (trial self))"
          using None Inr kvs by (auto simp: getitem_def split: sum.splits prod.splits)
        with sample_param_history [of p kvs "trial self"] show ?thesis by simp
      qed
    qed
  qed
qed

lemma getitem_config: "config (snd (getitem self p)) = config self"
  unfolding getitem_def
  by (auto split: option.splits sum.splits val.splits prod.splits)

text \<open>The cache only grows, and the tree stays, through every read and every call.\<close>

lemma extends_refl: "extends s s"
  by (simp add: extends_def)

lemma extends_trans: "extends s s' \<Longrightarrow> extends s' s'' \<Longrightarrow> extends s s''"
  by (auto simp: extends_def intro: map_le_trans)

lemma extends_trial: "extends s s' \<Longrightarrow> extends s (s'\<lparr>trial := tr\<rparr>)"
  by (simp add: extends_def)

lemma extends_log:
  "extends s s' \<Longrightarrow> log s i = None \<Longrightarrow> extends s (s'\<lparr>log := (log s')(i \<mapsto> v)\<rparr>)"
  by (auto simp: extends_def map_le_def dom_def)

lemma resolve_extends:
  assumes "growing again"
  shows "extends s (snd (resolve ev again s node))"
proof (cases node)
  case (VRef name arg)
  have "extends s (snd (again s (''hp/'' @ arg)))"
    using assms by (simp add: growing_def)
  then show ?thesis
    using VRef
    by (auto simp: resolve_def extends_refl split: option.splits resolver.splits sum.splits
        prod.splits pyval.splits)
qed (simp_all add: resolve_def extends_refl)

lemma read_extends:
  "growing again \<Longrightarrow> extends s (snd (read ev again s here param key))"
  by (simp add: read_def resolve_extends extends_refl split: sum.splits)

lemma get_extends:
  "growing again \<Longrightarrow> extends s (snd (get ev again s param key))"
  by (simp add: get_def resolve_extends extends_refl split: option.splits)

lemma index_r_extends:
  "growing again \<Longrightarrow> extends s (snd (index_r ev again s here x n))"
  by (simp add: index_r_def resolve_extends extends_refl split: sum.splits)

lemma resolve_all_extends:
  assumes "growing again"
  shows "extends s (snd (resolve_all ev again s xs))"
proof (induction xs arbitrary: s)
  case Nil
  then show ?case by (simp add: extends_refl)
next
  case (Cons x xs)
  obtain r s1 where r: "resolve ev again s x = (r, s1)" by (cases "resolve ev again s x")
  have a: "extends s s1" using resolve_extends [OF assms, of s ev x] r by simp
  show ?case
  proof (cases r)
    case (Inl e)
    with r a show ?thesis by simp
  next
    case (Inr v)
    have "extends s1 (snd (resolve_all ev again s1 xs))" by (rule Cons.IH)
    with a have "extends s (snd (resolve_all ev again s1 xs))" by (rule extends_trans)
    with r Inr show ?thesis by (auto split: prod.splits sum.splits)
  qed
qed

lemma unpack_r_extends:
  "growing again \<Longrightarrow> extends s (snd (unpack_r ev again s x))"
  by (cases x) (simp_all add: unpack_r_def resolve_all_extends extends_refl)

lemma descend_r_extends:
  assumes "growing again"
  shows "extends s (snd (descend_r ev again s here param keys))"
proof (induction keys arbitrary: s here param)
  case Nil
  then show ?case by (simp add: extends_refl)
next
  case (Cons key keys)
  obtain r s1 where r: "read ev again s here param key = (r, s1)"
    by (cases "read ev again s here param key")
  have a: "extends s s1" using read_extends [OF assms, of s ev here param key] r by simp
  show ?case
  proof (cases r)
    case (Inl e)
    with r a show ?thesis by simp
  next
    case (Inr child)
    have "extends s1 (snd (descend_r ev again s1 (here @ [key]) child keys))" by (rule Cons.IH)
    with a have "extends s (snd (descend_r ev again s1 (here @ [key]) child keys))"
      by (rule extends_trans)
    with r Inr show ?thesis by simp
  qed
qed

lemma with_trial_extends: "extends s (snd (with_trial s method))"
  by (auto simp: with_trial_def extends_def split: option.splits prod.splits)

lemma bind_extends:
  assumes "extends s (snd p)"
    and "\<And>v. extends (snd p) (snd (g v (snd p)))"
  shows "extends s (snd (case p of (Inl e, s') \<Rightarrow> (Inl e, s') | (Inr v, s') \<Rightarrow> g v s'))"
proof (cases p)
  case (Pair r s1)
  show ?thesis
  proof (cases r)
    case (Inl e)
    with Pair assms(1) show ?thesis by simp
  next
    case (Inr v)
    with Pair assms(1) assms(2) [of v] show ?thesis by (auto intro: extends_trans)
  qed
qed

lemma sum_extends:
  assumes "extends s s'"
    and "\<And>y. extends s (snd (h y))"
  shows "extends s (snd (case x of Inl e \<Rightarrow> (Inl e, s') | Inr y \<Rightarrow> h y))"
  using assms by (cases x) simp_all

lemma sample_param_r_extends:
  assumes g: "growing again"
  shows "extends s (snd (sample_param_r ev again key param s))"
proof (cases "trial s")
  case None
  then show ?thesis
    using get_extends [OF g, of s ev param "''default''"]
    by (auto simp: sample_param_r_def split: prod.splits sum.splits)
next
  case (Some t)
  show ?thesis
    unfolding sample_param_r_def Let_def Some option.case
    apply (rule bind_extends)
     apply (rule get_extends [OF g])
    apply (simp only: if_distrib [of snd] if_distrib [of "extends _"] snd_conv)
    apply (intro conjI impI bind_extends sum_extends read_extends [OF g] index_r_extends [OF g]
        unpack_r_extends [OF g] with_trial_extends extends_refl | simp only: split: if_split
        | simp add: extends_refl)+
    done
qed

lemma descend_r_extendsD:
  "growing again \<Longrightarrow> descend_r ev again s here param keys = (r, s') \<Longrightarrow> extends s s'"
  using descend_r_extends [of again s ev here param keys] by simp

lemma getitem_with_extends:
  assumes g: "growing again"
  shows "extends self (snd (getitem_with ev again self i))"
proof (cases "log self i")
  case (Some v)
  then show ?thesis by (simp add: getitem_with_def extends_refl)
next
  case None
  obtain r s where d: "descend_r ev again self [] (config self) (split CHR ''/'' i) = (r, s)"
    by (cases "descend_r ev again self [] (config self) (split CHR ''/'' i)")
  have a: "extends self s" using g d by (rule descend_r_extendsD)
  show ?thesis
  proof (cases r)
    case (Inl e)
    with None d a show ?thesis by (simp add: getitem_with_def)
  next
    case (Inr param)
    show ?thesis
    proof (cases "\<exists>entries. param = VDict entries")
      case False
      have "extends self (s\<lparr>log := (log s)(i \<mapsto> Val param)\<rparr>)"
        using a None by (rule extends_log)
      with None d Inr False show ?thesis
        by (cases param) (simp_all add: getitem_with_def)
    next
      case True
      then obtain entries where e: "param = VDict entries" by blast
      obtain r' s' where sp: "sample_param_r ev again i entries s = (r', s')"
        by (cases "sample_param_r ev again i entries s")
      have "extends s s'" using sample_param_r_extends [OF g, of s ev i entries] sp by simp
      with a have b: "extends self s'" by (rule extends_trans)
      show ?thesis
      proof (cases r')
        case (Inl e')
        with None d Inr e sp b show ?thesis by (simp add: getitem_with_def)
      next
        case (Inr v)
        have "extends self (s'\<lparr>log := (log s')(i \<mapsto> v)\<rparr>)"
          using b None by (rule extends_log)
        with None d \<open>r = Inr param\<close> e sp Inr show ?thesis by (simp add: getitem_with_def)
      qed
    qed
  qed
qed

lemma getitem_r_growing: "growing (getitem_r ev depth)"
proof (induction depth)
  case 0
  show ?case by (simp add: growing_def extends_refl)
next
  case (Suc depth)
  then show ?case
    using getitem_with_extends [of "getitem_r ev depth"] by (simp add: growing_def)
qed


text \<open>
  On a plain document no read has an effect, and the methods with the resolvers at
  work are the methods where nodes read as they are stored.
\<close>

lemma plain_not_ref: "plain v \<Longrightarrow> \<not> is_ref v"
  by (cases v) simp_all

lemma resolve_not_ref: "\<not> is_ref node \<Longrightarrow> resolve ev again s node = (Inr node, s)"
  by (cases node) (simp_all add: resolve_def)

lemma map_of_plain:
  "list_all plain (map snd kvs) \<Longrightarrow> map_of kvs key = Some child \<Longrightarrow> plain child"
  by (induction kvs) (auto split: if_splits)

lemma item_plain: "plain node \<Longrightarrow> item here node key = Inr child \<Longrightarrow> plain child"
  by (cases node) (auto split: option.splits dest: map_of_plain)

lemma read_plain:
  assumes "plain node"
  shows "read ev again s here node key = (item here node key, s)"
proof (cases "item here node key")
  case (Inl e)
  then show ?thesis by (simp add: read_def)
next
  case (Inr child)
  with assms have "\<not> is_ref child" by (blast dest: item_plain plain_not_ref)
  with Inr show ?thesis by (simp add: read_def resolve_not_ref)
qed

lemma get_plain:
  "list_all plain (map snd kvs) \<Longrightarrow> get ev again s kvs key = (Inr (get_or_none kvs key), s)"
  by (auto simp: get_def get_or_none_def split: option.splits
      dest!: map_of_plain plain_not_ref simp: resolve_not_ref)

lemma index_plain: "plain x \<Longrightarrow> index here x n = Inr element \<Longrightarrow> plain element"
  by (cases x) (auto simp: list_all_length split: if_splits)

lemma index_r_plain:
  assumes "plain x"
  shows "index_r ev again s here x n = (index here x n, s)"
proof (cases "index here x n")
  case (Inl e)
  then show ?thesis by (simp add: index_r_def)
next
  case (Inr element)
  with assms have "\<not> is_ref element" by (blast dest: index_plain plain_not_ref)
  with Inr show ?thesis by (simp add: index_r_def resolve_not_ref)
qed

lemma resolve_all_plain: "list_all plain xs \<Longrightarrow> resolve_all ev again s xs = (Inr xs, s)"
  by (induction xs) (auto simp: resolve_not_ref plain_not_ref)

lemma unpack_r_plain: "plain x \<Longrightarrow> unpack_r ev again s x = (unpack x, s)"
  by (cases x) (simp_all add: unpack_r_def resolve_all_plain)

lemma descend_plain: "plain node \<Longrightarrow> descend here node keys = Inr x \<Longrightarrow> plain x"
  by (induction keys arbitrary: here node) (auto split: sum.splits dest: item_plain)

lemma descend_r_plain:
  "plain node \<Longrightarrow> descend_r ev again s here node keys = (descend here node keys, s)"
  by (induction keys arbitrary: here node) (auto simp: read_plain split: sum.splits dest: item_plain)

lemma with_trial_Some:
  "trial s = Some t \<Longrightarrow>
   with_trial s method = (case method t of (r, t') \<Rightarrow> (r, s\<lparr>trial := Some t'\<rparr>))"
  by (simp add: with_trial_def)

lemma trial_update_same: "trial s = tr \<Longrightarrow> s\<lparr>trial := tr\<rparr> = s"
  by auto

lemma sample_param_r_plain:
  assumes p: "list_all plain (map snd kvs)"
  shows "sample_param_r ev again key kvs s =
           (case sample_param key kvs (trial s) of (r, tr) \<Rightarrow> (r, s\<lparr>trial := tr\<rparr>))"
proof (cases "trial s")
  case None
  then show ?thesis
    by (simp add: sample_param_r_def sample_param_def get_plain [OF p] trial_update_same)
next
  case (Some t)
  have pd: "plain (VDict kvs)" using p by simp
  have same: "s\<lparr>trial := Some t\<rparr> = s" using Some by (rule trial_update_same)
  note rd = read_plain [OF pd]
  consider (none) "get_or_none kvs ''sample_type'' = VNone"
    | (single) "get_or_none kvs ''sample_type'' = VStr ''single_value''"
    | (categorical) "get_or_none kvs ''sample_type'' = VStr ''categorical''"
    | (float) "get_or_none kvs ''sample_type'' = VStr ''float''"
    | (range) "get_or_none kvs ''sample_type'' = VStr ''range''"
    | (other) "get_or_none kvs ''sample_type'' \<notin>
        {VNone, VStr ''single_value'', VStr ''categorical'', VStr ''float'', VStr ''range''}"
    by blast
  then show ?thesis
  proof cases
    case none
    with Some same show ?thesis
      by (simp add: sample_param_r_def sample_param_def get_plain [OF p])
  next
    case single
    with Some same show ?thesis
      by (simp add: sample_param_r_def sample_param_def get_plain [OF p] rd split: sum.splits)
  next
    case categorical
    with Some same show ?thesis
      by (simp add: sample_param_r_def sample_param_def get_plain [OF p] rd with_trial_Some Let_def
          split: sum.splits prod.splits)
  next
    case float
    have "unpack_r ev again s space = (unpack space, s)"
      if "item (split CHR ''/'' key) (VDict kvs) ''sample_space'' = Inr space" for space
      using that pd by (blast intro: unpack_r_plain dest: item_plain)
    with float Some same show ?thesis
      by (simp add: sample_param_r_def sample_param_def get_plain [OF p] rd with_trial_Some Let_def
          split: sum.splits prod.splits)
  next
    case range
    have "index_r ev again s here space n = (index here space n, s)"
      if "item (split CHR ''/'' key) (VDict kvs) ''sample_space'' = Inr space" for space here n
      using that pd by (blast intro: index_r_plain dest: item_plain)
    with range Some same show ?thesis
      by (simp add: sample_param_r_def sample_param_def get_plain [OF p] rd with_trial_Some Let_def
          split: sum.splits prod.splits)
  next
    case other
    with Some same show ?thesis
      by (simp add: sample_param_r_def sample_param_def get_plain [OF p])
  qed
qed

lemma getitem_with_plain:
  assumes "plain (config self)"
  shows "getitem_with ev again self i = getitem self i"
proof (cases "log self i")
  case (Some v)
  then show ?thesis by (simp add: getitem_with_def getitem_def)
next
  case None
  note d = descend_r_plain [OF assms, of ev again self "[]" "split CHR ''/'' i"]
  show ?thesis
  proof (cases "descend [] (config self) (split CHR ''/'' i)")
    case (Inl e)
    with None d show ?thesis by (simp add: getitem_with_def getitem_def)
  next
    case (Inr param)
    have pp: "plain param" using assms Inr by (rule descend_plain)
    show ?thesis
    proof (cases "\<exists>entries. param = VDict entries")
      case False
      with None d Inr show ?thesis
        by (cases param) (simp_all add: getitem_with_def getitem_def)
    next
      case True
      then obtain entries where e: "param = VDict entries" by blast
      with pp have "list_all plain (map snd entries)" by simp
      note sp = sample_param_r_plain [OF this, of ev again i self]
      obtain r tr where r: "sample_param i entries (trial self) = (r, tr)"
        by (cases "sample_param i entries (trial self)")
      show ?thesis
        using None d Inr e sp r
        by (cases r) (simp_all add: getitem_with_def getitem_def)
    qed
  qed
qed

lemma getitem_r_plain:
  "plain (config self) \<Longrightarrow> getitem_r ev (Suc depth) self i = getitem self i"
  by (simp add: getitem_with_plain)


text \<open>A descent of the stored tree that reads no interpolation leaves the object alone.\<close>

lemma descend_not_ref:
  "descend here child keys = Inr x \<Longrightarrow> \<not> is_ref x \<Longrightarrow> \<not> is_ref child"
  by (cases keys; cases child) (auto split: sum.splits)

lemma descend_r_stored:
  assumes "descend here node keys = Inr x" and "\<not> is_ref x"
  shows "descend_r ev again s here node keys = (Inr x, s)"
  using assms
proof (induction keys arbitrary: here node)
  case Nil
  then show ?case by simp
next
  case (Cons key keys)
  from Cons.prems(1) obtain child where c: "item here node key = Inr child"
    and d: "descend (here @ [key]) child keys = Inr x"
    by (auto split: sum.splits)
  have "\<not> is_ref child" using d Cons.prems(2) by (rule descend_not_ref)
  with c have "read ev again s here node key = (Inr child, s)"
    by (simp add: read_def resolve_not_ref)
  with Cons.IH [OF d Cons.prems(2)] show ?case by simp
qed

lemma in_tree_descend_r:
  "in_tree tree keys \<Longrightarrow> descend_r ev again s [] tree keys = (descend [] tree keys, s)"
  by (auto simp: in_tree_def descend_r_stored split: sum.splits)

lemma descend_r_append:
  "descend_r ev again s here node (pre @ key # rest) =
     (case descend_r ev again s here node pre of
        (Inl e, s') \<Rightarrow> (Inl e, s')
      | (Inr n, s') \<Rightarrow>
          (case read ev again s' (here @ pre) n key of
             (Inl e, s'') \<Rightarrow> (Inl e, s'')
           | (Inr child, s'') \<Rightarrow> descend_r ev again s'' (here @ pre @ [key]) child rest))"
  by (induction pre arbitrary: s here node) (auto split: sum.splits prod.splits)

subsection \<open>Memoisation\<close>



subsection \<open>The sampling policy\<close>

text \<open>
  C2. With a trial active, a dictionary node without a \<open>sample_type\<close> should make
  \<open>self[p]\<close> fail. The code builds the \<open>NotImplementedError\<close> and returns it instead of
  raising it: on the node \<open>hp/optim\<close> the call succeeds, its value is the exception
  object, and that object is stored in the cache.
\<close>

theorem untyped_dictionary_returns_exception_object:
  "fst (getitem searching ''hp/optim'') =
     Inr (ExcObj (NotImplementedError
       [Text ''At the moment it is not possible to return dictionaries when querying parameters.''])) \<and>
   log (snd (getitem searching ''hp/optim'')) ''hp/optim'' =
     Some (ExcObj (NotImplementedError
       [Text ''At the moment it is not possible to return dictionaries when querying parameters.'']))"
  by (simp add: getitem_def searching_def init_def document_def hp_def hp_optim_def
      sample_param_def get_or_none_def stub_trial_def)



text \<open>
  C4. An overwrite at a path whose parent chain leads to a dictionary node succeeds, and
  from then on, whatever is resolved and whatever other path is overwritten in between,
  \<open>self[p]\<close> returns exactly the value written and leaves the object as it is, so the
  trial is not consulted, whatever node the document has at \<open>p\<close>.
\<close>

theorem overwrite_precedence:
  assumes "descend [] (config self) (butlast (split CHR ''/'' p)) = Inr (VDict kvs)"
  shows "fst (setitem self p v) = Inr () \<and>
         (\<forall>ops. (\<forall>w. Overwrite p w \<notin> set ops) \<longrightarrow>
            getitem (run (snd (setitem self p v)) ops) p =
              (Inr (Val v), run (snd (setitem self p v)) ops))"
proof -
  have ok: "fst (setitem self p v) = Inr ()"
    and lg: "log (snd (setitem self p v)) p = Some (Val v)"
    using assms by (simp_all add: setitem_def Let_def)
  show ?thesis using ok run_keeps [OF lg] getitem_cached by blast
qed

theorem overwrite_precedence_witness:
  "descend [] (config searching) (butlast (split CHR ''/'' ''hp/beta'')) = Inr (VDict hp) \<and>
   fst (setitem searching ''hp/beta'' (VFloat (1 / 10))) = Inr () \<and>
   getitem (run (snd (setitem searching ''hp/beta'' (VFloat (1 / 10)))) [Resolve ''hp/act_fn''])
       ''hp/beta'' =
     (Inr (Val (VFloat (1 / 10))),
      run (snd (setitem searching ''hp/beta'' (VFloat (1 / 10)))) [Resolve ''hp/act_fn''])"
proof -
  have a: "descend [] (config searching) (butlast (split CHR ''/'' ''hp/beta'')) = Inr (VDict hp)"
    by (simp add: searching_def init_def document_def)
  have b: "\<forall>w. Overwrite ''hp/beta'' w \<notin> set [Resolve ''hp/act_fn'']"
    by simp
  from overwrite_precedence [OF a, of "VFloat (1 / 10)"] a b show ?thesis
    by blast
qed

text \<open>
  C5. With a trial active, a path that is not cached and leads to a node with
  \<open>sample_type\<close> \<open>range\<close> and integer bounds \<open>low\<close>, \<open>high\<close> consults the trial once:
  \<open>suggest_categorical\<close>, keyed by the path, with exactly the integers from \<open>low\<close> to
  \<open>high\<close> in order. What the trial answers is the outcome: a suggestion is returned and
  cached, an exception of the trial is passed on.
\<close>

theorem range_expansion:
  assumes "log self p = None"
    and "descend [] (config self) (split CHR ''/'' p) = Inr (VDict kvs)"
    and "trial self = Some t"
    and "map_of kvs ''sample_type'' = Some (VStr ''range'')"
    and "map_of kvs ''sample_space'' = Some (VList (VInt low # VInt high # others))"
  shows "getitem self p =
           (let c = Suggest_categorical p (VList (map VInt [low..high]));
                t' = t\<lparr>history := history t @ [c]\<rparr>
            in case respond t (history t) c of
                 Inl e \<Rightarrow> (Inl e, self\<lparr>trial := Some t'\<rparr>)
               | Inr v \<Rightarrow> (Inr v, self\<lparr>log := (log self)(p \<mapsto> v), trial := Some t'\<rparr>))"
  using assms
  by (simp add: getitem_def sample_param_def get_or_none_def suggest_categorical_def
      consult_def range_tuple_def Let_def split: sum.splits)

theorem range_expansion_witness:
  "log searching ''hp/batch_size'' = None \<and>
   trial searching = Some stub_trial \<and>
   fst (getitem searching ''hp/batch_size'') = Inr (Val (VInt 3)) \<and>
   calls (snd (getitem searching ''hp/batch_size'')) =
     [Suggest_categorical ''hp/batch_size'' (VList [VInt 1, VInt 2, VInt 3])]"
proof -
  have a: "log searching ''hp/batch_size'' = None"
    and c: "trial searching = Some stub_trial"
    by (simp_all add: searching_def init_def)
  have b: "descend [] (config searching) (split CHR ''/'' ''hp/batch_size'') = Inr (VDict hp_batch_size)"
    by (simp add: searching_def init_def document_def hp_def)
  have d: "map_of hp_batch_size ''sample_type'' = Some (VStr ''range'')"
    and e: "map_of hp_batch_size ''sample_space'' = Some (VList (VInt 1 # VInt 3 # []))"
    by (simp_all add: hp_batch_size_def)
  have f: "[1..3] = [1, 2, 3::int]"
    by (simp add: upto.simps)
  from range_expansion [OF a b c d e] a c f show ?thesis
    by (simp add: Let_def stub_trial_def calls_def)
qed

text \<open>
  C6, as amended. Let the path be not cached, let the descent reach a node, and let the
  next segment be missing there. If the node is a dictionary, \<open>self[p]\<close> fails with the
  lookup error that names the segment and the path down to it. If the node is a scalar
  or a list, it fails with \<open>TypeError\<close> or with the key validation error instead. In
  every case nothing is returned, and the object is as the descent down to the node left
  it: as before when no interpolation was read on the way, and otherwise with the tree
  as before and the cache grown by what the interpolations resolved, every earlier entry
  kept.
\<close>

theorem missing_segment:
  assumes "log self p = None"
    and "split CHR ''/'' p = pre @ key # rest"
    and "descend_r ev (getitem_r ev depth) self [] (config self) pre = (Inr node, s)"
    and "item pre node key = Inl e"
  shows "getitem_r ev (Suc depth) self p = (Inl e, s) \<and>
         (case node of
            VDict kvs \<Rightarrow> map_of kvs key = None \<and> e = KeyError key (pre @ [key])
          | VList xs \<Rightarrow> e = KeyValidationError
          | _ \<Rightarrow> e = TypeError) \<and>
         config s = config self \<and> log self \<subseteq>\<^sub>m log s \<and>
         (in_tree (config self) pre \<longrightarrow> s = self)"
proof -
  have "descend_r ev (getitem_r ev depth) self [] (config self) (split CHR ''/'' p) = (Inl e, s)"
    using assms(2-4) by (simp add: descend_r_append read_def)
  then have a: "getitem_r ev (Suc depth) self p = (Inl e, s)"
    using assms(1) by (simp add: getitem_with_def)
  have b: "case node of
            VDict kvs \<Rightarrow> map_of kvs key = None \<and> e = KeyError key (pre @ [key])
          | VList xs \<Rightarrow> e = KeyValidationError
          | _ \<Rightarrow> e = TypeError"
    using assms(4) by (cases node) (auto split: option.splits)
  have "extends self s"
    using getitem_r_growing assms(3) by (rule descend_r_extendsD)
  then have c: "config s = config self \<and> log self \<subseteq>\<^sub>m log s"
    by (simp add: extends_def)
  have d: "s = self" if "in_tree (config self) pre"
    using in_tree_descend_r [OF that, of ev "getitem_r ev depth" self] assms(3) by simp
  from a b c d show ?thesis by blast
qed

theorem missing_segment_witness:
  "log fixed ''hp/does_not_exist'' = None \<and>
   split CHR ''/'' ''hp/does_not_exist'' = [''hp''] @ ''does_not_exist'' # [] \<and>
   descend_r no_eval (getitem_r no_eval 0) fixed [] (config fixed) [''hp''] =
     (Inr (VDict hp), fixed) \<and>
   in_tree (config fixed) [''hp''] \<and>
   item [''hp''] (VDict hp) ''does_not_exist'' =
     Inl (KeyError ''does_not_exist'' [''hp'', ''does_not_exist'']) \<and>
   getitem_r no_eval (Suc 0) fixed ''hp/does_not_exist'' =
     (Inl (KeyError ''does_not_exist'' [''hp'', ''does_not_exist'']), fixed)"
proof -
  have a: "log fixed ''hp/does_not_exist'' = None"
    by (simp add: fixed_def init_def)
  have b: "split CHR ''/'' ''hp/does_not_exist'' = [''hp''] @ ''does_not_exist'' # []"
    by simp
  have c: "descend_r no_eval (getitem_r no_eval 0) fixed [] (config fixed) [''hp''] =
      (Inr (VDict hp), fixed)"
    by (simp add: fixed_def init_def document_def read_def resolve_def)
  have d: "item [''hp''] (VDict hp) ''does_not_exist'' =
      Inl (KeyError ''does_not_exist'' [''hp'', ''does_not_exist''])"
    by (simp add: hp_def)
  have t: "in_tree (config fixed) [''hp'']"
    by (simp add: in_tree_def fixed_def init_def document_def)
  from missing_segment [OF a b c d] a b c d t show ?thesis by blast
qed

text \<open>
  The claim as it was stated fails where the missing segment lies below a scalar:
  \<open>hp/epochs\<close> is the integer 3, and \<open>self["hp/epochs/x"]\<close> raises \<open>TypeError\<close>, which is
  not a lookup error.
\<close>

theorem missing_segment_below_scalar:
  "log fixed ''hp/epochs/x'' = None \<and>
   descend [] (config fixed) [''hp'', ''epochs''] = Inr (VInt 3) \<and>
   getitem fixed ''hp/epochs/x'' = (Inl TypeError, fixed) \<and>
   getitem_r no_eval (Suc 0) fixed ''hp/epochs/x'' = (Inl TypeError, fixed)"
  by (simp add: getitem_def getitem_with_def read_def resolve_def fixed_def init_def
      document_def hp_def)

text \<open>
  Below an interpolation the same failure leaves the path that the interpolation
  resolved in the cache: \<open>hp/a\<close> is \<open>${hp:epochs}\<close>.
\<close>

lemma missing_segment_below_interpolation:
  "fst (getitem_r no_eval (Suc (Suc 0)) linked_search ''hp/a/x'') = Inl TypeError \<and>
   log linked_search ''hp/epochs'' = None \<and>
   log (snd (getitem_r no_eval (Suc (Suc 0)) linked_search ''hp/a/x'')) ''hp/epochs'' =
     Some (Val (VInt 3))"
  by (simp add: getitem_with_def read_def resolve_def registry_def
      linked_search_def init_def linked_def linked_hp_def)



text \<open>
  C8, as amended. With a trial active, a path that is not cached and leads to a node
  with \<open>sample_type\<close> \<open>single_value\<close> returns what reading \<open>sample_space\<close> yields and
  caches it. A payload that is no interpolation is returned as it is, and nothing else
  of the object changes, so the trial receives no call. A payload that is an
  interpolation is replaced by what its resolver returns, and the object is as the
  resolver left it.
\<close>

theorem single_value_reads_sample_space:
  assumes "log self p = None"
    and "descend [] (config self) (split CHR ''/'' p) = Inr (VDict kvs)"
    and "trial self = Some t"
    and "map_of kvs ''sample_type'' = Some (VStr ''single_value'')"
    and "map_of kvs ''sample_space'' = Some space"
  shows "getitem_r ev (Suc depth) self p =
           (case resolve ev (getitem_r ev depth) self space of
              (Inl e, s) \<Rightarrow> (Inl e, s)
            | (Inr v, s) \<Rightarrow> (Inr (Val v), s\<lparr>log := (log s)(p \<mapsto> Val v)\<rparr>)) \<and>
         (\<not> is_ref space \<longrightarrow>
            getitem_r ev (Suc depth) self p =
              (Inr (Val space), self\<lparr>log := (log self)(p \<mapsto> Val space)\<rparr>))"
proof -
  have d: "descend_r ev (getitem_r ev depth) self [] (config self) (split CHR ''/'' p) =
      (Inr (VDict kvs), self)"
    using assms(2) by (simp add: descend_r_stored)
  have g: "get ev (getitem_r ev depth) self kvs ''sample_type'' = (Inr (VStr ''single_value''), self)"
    using assms(4) by (simp add: get_def resolve_def)
  have a: "getitem_r ev (Suc depth) self p =
           (case resolve ev (getitem_r ev depth) self space of
              (Inl e, s) \<Rightarrow> (Inl e, s)
            | (Inr v, s) \<Rightarrow> (Inr (Val v), s\<lparr>log := (log s)(p \<mapsto> Val v)\<rparr>))"
    using assms(1,3,5) d g
    by (simp add: getitem_with_def sample_param_r_def read_def split: prod.splits sum.splits)
  then show ?thesis by (simp add: resolve_not_ref)
qed

theorem single_value_reads_sample_space_witness:
  "log searching ''hp/T'' = None \<and>
   descend [] (config searching) (split CHR ''/'' ''hp/T'') = Inr (VDict hp_T) \<and>
   trial searching = Some stub_trial \<and>
   \<not> is_ref (VInt 7) \<and>
   getitem_r no_eval (Suc 0) searching ''hp/T'' =
     (Inr (Val (VInt 7)), searching\<lparr>log := (log searching)(''hp/T'' \<mapsto> Val (VInt 7))\<rparr>)"
proof -
  have a: "log searching ''hp/T'' = None"
    and c: "trial searching = Some stub_trial"
    by (simp_all add: searching_def init_def)
  have b: "descend [] (config searching) (split CHR ''/'' ''hp/T'') = Inr (VDict hp_T)"
    by (simp add: searching_def init_def document_def hp_def)
  have d: "map_of hp_T ''sample_type'' = Some (VStr ''single_value'')"
    and e: "map_of hp_T ''sample_space'' = Some (VInt 7)"
    by (simp_all add: hp_T_def)
  have f: "\<not> is_ref (VInt 7)" by simp
  from single_value_reads_sample_space [OF a b c d e, of no_eval 0] a b c f show ?thesis
    by blast
qed

text \<open>
  The claim as it was stated fails on a payload that is an interpolation: \<open>hp/act2\<close>
  has the payload \<open>${hp:act_fn}\<close>, and \<open>self["hp/act2"]\<close> returns the activation that
  the trial suggests for \<open>hp/act_fn\<close>, after consulting the trial.
\<close>

theorem single_value_interpolated:
  "map_of hp_act2 ''sample_type'' = Some (VStr ''single_value'') \<and>
   map_of hp_act2 ''sample_space'' = Some (VRef ''hp'' ''act_fn'') \<and>
   calls linked_search = [] \<and>
   fst (getitem_r no_eval (Suc (Suc 0)) linked_search ''hp/act2'') = Inr (Val (VStr ''gelu'')) \<and>
   calls (snd (getitem_r no_eval (Suc (Suc 0)) linked_search ''hp/act2'')) =
     [Suggest_categorical ''hp/act_fn'' (VList [VStr ''relu'', VStr ''gelu''])] \<and>
   log (snd (getitem_r no_eval (Suc (Suc 0)) linked_search ''hp/act2'')) ''hp/act_fn'' =
     Some (Val (VStr ''gelu''))"
  by (simp add: getitem_with_def sample_param_r_def read_def get_def resolve_def registry_def
      with_trial_def suggest_categorical_def consult_def calls_def
      linked_search_def init_def linked_def linked_hp_def hp_act2_def hp_act_fn_def
      stub_trial_def)

subsection \<open>Frame and failure\<close>

text \<open>
  C9. \<open>self[p]\<close>, whether it returns or raises, leaves the configuration tree as it is.
  Of the object's own state only the cache can differ afterwards; the trial is the same
  trial, with at most its own record of calls extended. The tree changes through
  assignment \<open>self[p] = v\<close> alone.
\<close>

theorem resolve_frame:
  "config (snd (getitem self p)) = config self \<and>
   (\<exists>lg h. snd (getitem self p) =
      self\<lparr>log := lg, trial := map_option (\<lambda>t. t\<lparr>history := h\<rparr>) (trial self)\<rparr>)"
proof -
  obtain h where h: "trial (snd (getitem self p)) = map_option (\<lambda>t. t\<lparr>history := h\<rparr>) (trial self)"
    using getitem_trial by blast
  have "snd (getitem self p) =
      self\<lparr>log := log (snd (getitem self p)),
           trial := map_option (\<lambda>t. t\<lparr>history := h\<rparr>) (trial self)\<rparr>"
    using getitem_frame [of self p] h by simp
  then show ?thesis using getitem_config by blast
qed

theorem resolve_frame_witness:
  "config (snd (getitem searching ''hp/act_fn'')) = document \<and>
   config (snd (getitem searching ''hp/does_not_exist'')) = document"
proof -
  have "config searching = document" by (simp add: searching_def init_def)
  with resolve_frame [of searching "''hp/act_fn''"]
    resolve_frame [of searching "''hp/does_not_exist''"]
  show ?thesis by simp
qed




end
